theory Spec2Isabelle
  imports
    Complex_Main
    "HOL-Library.Multiset"
    "HOL-Library.Char_ord"
    "HOL-Library.List_Lexorder"
begin

section \<open>Numbers, strings and instants\<close>

text \<open>
  JavaScript numbers are modelled by exact rationals. Every number the modelled code
  handles is a table constant (a multiple of a quarter), a difference of two integral
  millisecond timestamps divided by 60000, or a short sum of such values.

  A \<open>Date\<close> is the number of milliseconds since the epoch, as \<open>getTime()\<close> returns it.
  The local time zone of the date-fns calls is taken to be UTC, and an Invalid Date is
  not a \<open>Date\<close>: where the code can produce one, the model returns \<open>None\<close>.
\<close>

type_synonym Date = int

definition MS_PER_DAY :: int where
  "MS_PER_DAY = 86400000"

definition MS_PER_HOUR :: int where
  "MS_PER_HOUR = 3600000"

text \<open>\<open>Math.round\<close>: the nearest integer, a tie going upwards.\<close>

definition Math_round :: "rat \<Rightarrow> int" where
  "Math_round x = \<lfloor>x + 1 / 2\<rfloor>"

definition digit_char :: "nat \<Rightarrow> char" where
  "digit_char n = (if n < 10 then ''0123456789'' ! n else CHR ''?'')"

text \<open>Decimal numerals, as a template literal prints an integer.\<close>

fun decimal_of_nat :: "nat \<Rightarrow> string" where
  "decimal_of_nat n =
     (if 10 \<le> n then decimal_of_nat (n div 10) @ [digit_char (n mod 10)] else [digit_char n])"

declare decimal_of_nat.simps [simp del]

definition decimal_of_int :: "int \<Rightarrow> string" where
  "decimal_of_int i =
     (if 0 \<le> i then decimal_of_nat (nat i) else CHR ''-'' # decimal_of_nat (nat (- i)))"

fun frac_digits :: "nat \<Rightarrow> rat \<Rightarrow> string" where
  "frac_digits 0 r = []"
| "frac_digits (Suc n) r =
     (if r = 0 then []
      else digit_char (nat \<lfloor>r * 10\<rfloor>) # frac_digits n (r * 10 - of_int \<lfloor>r * 10\<rfloor>))"

text \<open>
  The string a template literal makes of a number, for numbers with a finite decimal
  expansion of at most 17 places (the tables hold quarters only).
\<close>

definition string_of_number :: "rat \<Rightarrow> string" where
  "string_of_number r =
     (let a = \<bar>r\<bar>; i = \<lfloor>a\<rfloor>; f = a - of_int i
      in (if r < 0 then ''-'' else '''') @ decimal_of_nat (nat i) @
         (if f = 0 then '''' else ''.'' @ frac_digits 17 f))"

section \<open>Label decoder\<close>

definition CATEGORY_HOURS_MAP :: "(string \<times> rat) list" where
  "CATEGORY_HOURS_MAP =
    [(''category1'', 1 / 2),
     (''category2'', 1),
     (''category3'', 2),
     (''category4'', 3),
     (''category5'', 4),
     (''category6'', 5),
     (''category7'', 6),
     (''category8'', 7),
     (''category9'', 8)]"

definition DIRECT_HOURS_MAP :: "(string \<times> rat) list" where
  "DIRECT_HOURS_MAP =
    [(''0.5h'', 1 / 2), (''0.5 h'', 1 / 2), (''0.5H'', 1 / 2), (''0.5 H'', 1 / 2),
     (''1h'', 1), (''1 h'', 1), (''1H'', 1), (''1 H'', 1),
     (''1.5h'', 3 / 2), (''1.5 h'', 3 / 2), (''1.5H'', 3 / 2), (''1.5 H'', 3 / 2),
     (''2h'', 2), (''2 h'', 2), (''2H'', 2), (''2 H'', 2),
     (''2.5h'', 5 / 2), (''2.5 h'', 5 / 2), (''2.5H'', 5 / 2), (''2.5 H'', 5 / 2),
     (''3h'', 3), (''3 h'', 3), (''3H'', 3), (''3 H'', 3),
     (''3.5h'', 7 / 2), (''3.5 h'', 7 / 2), (''3.5H'', 7 / 2), (''3.5 H'', 7 / 2),
     (''4h'', 4), (''4 h'', 4), (''4H'', 4), (''4 H'', 4),
     (''4.5h'', 9 / 2), (''4.5 h'', 9 / 2), (''4.5H'', 9 / 2), (''4.5 H'', 9 / 2),
     (''5h'', 5), (''5 h'', 5), (''5H'', 5), (''5 H'', 5),
     (''5.5h'', 11 / 2), (''5.5 h'', 11 / 2), (''5.5H'', 11 / 2), (''5.5 H'', 11 / 2),
     (''6h'', 6), (''6 h'', 6), (''6H'', 6), (''6 H'', 6),
     (''6.5h'', 13 / 2), (''6.5 h'', 13 / 2), (''6.5H'', 13 / 2), (''6.5 H'', 13 / 2),
     (''7h'', 7), (''7 h'', 7), (''7H'', 7), (''7 H'', 7),
     (''7.5h'', 15 / 2), (''7.5 h'', 15 / 2), (''7.5H'', 15 / 2), (''7.5 H'', 15 / 2),
     (''8h'', 8), (''8 h'', 8), (''8H'', 8), (''8 H'', 8),
     (''9h'', 9), (''9 h'', 9), (''9H'', 9), (''9 H'', 9),
     (''10h'', 10), (''10 h'', 10), (''10H'', 10), (''10 H'', 10),
     (''12h'', 12), (''12 h'', 12), (''12H'', 12), (''12 H'', 12),
     (''30m'', 1 / 2), (''30 m'', 1 / 2), (''30min'', 1 / 2), (''30 min'', 1 / 2),
     (''15m'', 1 / 4), (''15 m'', 1 / 4), (''15min'', 1 / 4), (''15 min'', 1 / 4),
     (''45m'', 3 / 4), (''45 m'', 3 / 4), (''45min'', 3 / 4), (''45 min'', 3 / 4)]"

text \<open>
  A table is read through \<open>map_of\<close>: an identifier that is not one of the table's own
  keys reads as \<open>undefined\<close>, here \<open>None\<close>.
\<close>

definition getCategoryDisplayLabel :: "string \<Rightarrow> string" where
  "getCategoryDisplayLabel category =
     (case map_of CATEGORY_HOURS_MAP category of
        None \<Rightarrow> category
      | Some hours \<Rightarrow>
          if hours < 1 then decimal_of_int (Math_round (hours * 60)) @ ''m''
          else string_of_number hours @ ''h'')"

record DecodedHours =
  dh_hours :: rat
  dh_categoryName :: string
  dh_displayLabel :: string

text \<open>
  The applied categories are the list of \<open>Object.entries\<close> of the record, in its
  iteration order. Each of the two loops returns at its first hit.
\<close>

fun category_loop :: "(string \<times> bool) list \<Rightarrow> DecodedHours option" where
  "category_loop [] = None"
| "category_loop ((category, isApplied) # rest) =
     (case map_of CATEGORY_HOURS_MAP category of
        Some hours \<Rightarrow>
          if isApplied
          then Some \<lparr>dh_hours = hours, dh_categoryName = category,
                     dh_displayLabel = getCategoryDisplayLabel category\<rparr>
          else category_loop rest
      | None \<Rightarrow> category_loop rest)"

fun direct_loop :: "(string \<times> bool) list \<Rightarrow> DecodedHours option" where
  "direct_loop [] = None"
| "direct_loop ((category, isApplied) # rest) =
     (case map_of DIRECT_HOURS_MAP category of
        Some hours \<Rightarrow>
          if isApplied
          then Some \<lparr>dh_hours = hours, dh_categoryName = category, dh_displayLabel = category\<rparr>
          else direct_loop rest
      | None \<Rightarrow> direct_loop rest)"

definition parseHoursFromCategories :: "(string \<times> bool) list \<Rightarrow> DecodedHours option" where
  "parseHoursFromCategories categories =
     (case category_loop categories of
        Some r \<Rightarrow> Some r
      | None \<Rightarrow> direct_loop categories)"



section \<open>Tasks and time entries\<close>

text \<open>
  The date strings of a task are carried as the instants \<open>parseISO\<close> reads from them;
  an absent (or empty) string is \<open>None\<close>.
\<close>

record PlannerTask =
  pt_id :: string
  pt_title :: string
  pt_planId :: string
  pt_bucketId :: string
  pt_createdDateTime :: Date
  pt_dueDateTime :: "Date option"
  pt_startDateTime :: "Date option"
  pt_completedDateTime :: "Date option"
  pt_percentComplete :: int
  pt_priority :: int
  pt_appliedCategories :: "(string \<times> bool) list"

record PlannerBucket =
  pb_id :: string
  pb_name :: string
  pb_planId :: string

record TimeEntry =
  te_id :: string
  te_date :: Date
  te_title :: string
  te_description :: string
  te_hours :: rat
  te_workType :: "string option"
  te_bucketName :: "string option"
  te_categoryLabel :: "string option"
  te_isCompleted :: bool
  te_completedDate :: "Date option"
  te_dueDate :: "Date option"
  te_priority :: int
  te_percentComplete :: int
  te_rawTask :: PlannerTask

definition taskToTimeEntry :: "PlannerTask \<Rightarrow> string option \<Rightarrow> TimeEntry" where
  "taskToTimeEntry task bucketName =
     (let categoryHours = parseHoursFromCategories (pt_appliedCategories task);
          entryDate =
            (case pt_dueDateTime task of
               Some d \<Rightarrow> d
             | None \<Rightarrow>
                 (case pt_startDateTime task of
                    Some s \<Rightarrow> s
                  | None \<Rightarrow> pt_createdDateTime task))
      in \<lparr>te_id = pt_id task,
          te_date = entryDate,
          te_title = pt_title task,
          te_description = '''',
          te_hours = (case categoryHours of Some r \<Rightarrow> dh_hours r | None \<Rightarrow> 0),
          te_workType = bucketName,
          te_bucketName = bucketName,
          te_categoryLabel = map_option dh_displayLabel categoryHours,
          te_isCompleted = (pt_percentComplete task = 100),
          te_completedDate = pt_completedDateTime task,
          te_dueDate = pt_dueDateTime task,
          te_priority = pt_priority task,
          te_percentComplete = pt_percentComplete task,
          te_rawTask = task\<rparr>)"

section \<open>Range filter\<close>

definition addHours :: "Date \<Rightarrow> int \<Rightarrow> Date" where
  "addHours date amount = date + amount * MS_PER_HOUR"

definition filterByDateRange :: "TimeEntry list \<Rightarrow> Date \<Rightarrow> Date \<Rightarrow> TimeEntry list" where
  "filterByDateRange entries startDate endDate =
     filter (\<lambda>entry. let entryDate = te_date entry
                     in entryDate \<ge> startDate \<and> entryDate \<le> addHours endDate 23) entries"

section \<open>Commit estimator: hours of one group\<close>

text \<open>
  The date string of a commit is carried as the instant that both \<open>parseISO\<close> and
  \<open>new Date\<close> read from it.
\<close>

record GitCommit =
  gc_sha :: string
  gc_message :: string
  gc_date :: Date
  gc_repo :: string
  gc_repoFullName :: string
  gc_author :: string
  gc_url :: string

definition MAX_MINUTES :: rat where
  "MAX_MINUTES = 4 * 60"

definition MIN_MINUTES :: rat where
  "MIN_MINUTES = 15"

text \<open>The \<open>for\<close> loop over neighbouring commits of the sorted array.\<close>

fun gap_loop :: "GitCommit list \<Rightarrow> rat \<Rightarrow> rat" where
  "gap_loop (c # n # rest) totalMinutes =
     (let current = gc_date c;
          next = gc_date n;
          diffMinutes = of_int (next - current) / (1000 * 60);
          minutes = min (max diffMinutes MIN_MINUTES) MAX_MINUTES
      in gap_loop (n # rest) (totalMinutes + minutes))"
| "gap_loop [c] totalMinutes = totalMinutes"
| "gap_loop [] totalMinutes = totalMinutes"

definition calculateHours :: "GitCommit list \<Rightarrow> rat" where
  "calculateHours commits =
     (if length commits = 0 then 0
      else if length commits = 1 then 2
      else
        let sorted = sort_key gc_date commits;
            totalMinutes = gap_loop sorted 0 + 30
        in min (of_int (Math_round (totalMinutes / 30)) * (1 / 2)) 8)"





section \<open>Loading the data of a plan\<close>

text \<open>
  The remote service is a pair of functions giving the outcome of each request: the value
  the promise resolves to, or what it rejects with. \<open>loadPlanData\<close> returns the
  view state it leaves behind together with the requests it issued, in order.
\<close>

fun includes_str :: "string \<Rightarrow> string \<Rightarrow> bool" where
  "includes_str [] sub = (sub = [])"
| "includes_str (c # cs) sub = (take (length sub) (c # cs) = sub \<or> includes_str cs sub)"

datatype thrown = ErrorValue string | OtherValue

record GraphService =
  getBuckets :: "string \<Rightarrow> thrown + PlannerBucket list"
  getMyTasks :: "int \<Rightarrow> thrown + PlannerTask list"

datatype request = GetBuckets string | GetMyTasks int

record AppState =
  st_entries :: "TimeEntry list"
  st_allMyTasks :: "TimeEntry list"
  st_buckets :: "PlannerBucket list"
  st_selectedBucketId :: "string option"
  st_loading :: bool
  st_error :: "string option"

definition catch_block :: "thrown \<Rightarrow> AppState \<Rightarrow> AppState" where
  "catch_block err st =
     st\<lparr>st_error :=
          Some (if (case err of ErrorValue message \<Rightarrow> includes_str message ''429''
                    | OtherValue \<Rightarrow> False)
                then ''Too many requests. Please wait a moment and try again.''
                else ''Failed to load tasks. Please try again.''),
        st_entries := [],
        st_allMyTasks := []\<rparr>"

definition finally_block :: "AppState \<Rightarrow> AppState" where
  "finally_block st = st\<lparr>st_loading := False\<rparr>"

text \<open>\<open>new Map(pairs)\<close>: a later pair with the same key replaces an earlier one.\<close>

definition bucketNameMap :: "PlannerBucket list \<Rightarrow> string \<Rightarrow> string option" where
  "bucketNameMap bs = map_of (rev (map (\<lambda>b. (pb_id b, pb_name b)) bs))"

definition loadPlanData ::
  "GraphService \<Rightarrow> string \<Rightarrow> AppState \<Rightarrow> AppState \<times> request list" where
  "loadPlanData graphService planId st0 =
     (let st1 = st0\<lparr>st_loading := True, st_error := None\<rparr>
      in case getBuckets graphService planId of
           Inl err \<Rightarrow> (finally_block (catch_block err st1), [GetBuckets planId])
         | Inr bs \<Rightarrow>
             (let st2 = st1\<lparr>st_buckets := bs\<rparr>
              in case getMyTasks graphService 3 of
                   Inl err \<Rightarrow>
                     (finally_block (catch_block err st2), [GetBuckets planId, GetMyTasks 3])
                 | Inr myTasks \<Rightarrow>
                     (let planTasks = filter (\<lambda>t. pt_planId t = planId) myTasks
                      in if length planTasks = 0
                         then (finally_block
                                 (st2\<lparr>st_allMyTasks := [], st_entries := [],
                                      st_selectedBucketId := None, st_loading := False\<rparr>),
                               [GetBuckets planId, GetMyTasks 3])
                         else
                           (let timeEntries =
                                  map (\<lambda>task.
                                         let bucketName =
                                               (case bucketNameMap bs (pt_bucketId task) of
                                                  Some name \<Rightarrow>
                                                    if name = '''' then ''Unknown'' else name
                                                | None \<Rightarrow> ''Unknown'')
                                         in taskToTimeEntry task (Some bucketName)) planTasks;
                                sorted = sort_key (\<lambda>e. - te_date e) timeEntries
                            in (finally_block
                                  (st2\<lparr>st_allMyTasks := sorted, st_entries := sorted,
                                       st_selectedBucketId := None\<rparr>),
                                [GetBuckets planId, GetMyTasks 3])))))"

definition fetch_failed :: "GraphService \<Rightarrow> string \<Rightarrow> bool" where
  "fetch_failed graphService planId =
     (isl (getBuckets graphService planId) \<or> isl (getMyTasks graphService 3))"

section \<open>Calendar dates\<close>

text \<open>
  The functions of date-fns are not part of the repository. They are modelled here on
  instants in UTC, from their documented behaviour: the calendar conversions are those of
  the proleptic Gregorian calendar that a JavaScript \<open>Date\<close> implements, on days
  counted from the epoch.
\<close>

definition is_leap :: "int \<Rightarrow> bool" where
  "is_leap y = (y mod 4 = 0 \<and> (y mod 100 \<noteq> 0 \<or> y mod 400 = 0))"

definition days_in_month :: "int \<Rightarrow> int \<Rightarrow> int" where
  "days_in_month y m =
     (if m = 2 then (if is_leap y then 29 else 28)
      else if m = 4 \<or> m = 6 \<or> m = 9 \<or> m = 11 then 30 else 31)"

text \<open>
  Year, month (1..12) and day of the month of a day number. Years are cut at 1 March
  into 400-year eras, centuries, 4-year groups and single years; each step hands the year
  reached so far and the days left over to the next one.
\<close>

definition civil_of_month :: "int \<Rightarrow> int \<Rightarrow> int \<Rightarrow> int \<times> int \<times> int" where
  "civil_of_month y mp doy =
     (if mp < 10 then (y, mp + 3, doy - (153 * mp + 2) div 5 + 1)
      else (y + 1, mp - 9, doy - (153 * mp + 2) div 5 + 1))"

definition civil_of_year :: "int \<Rightarrow> int \<Rightarrow> int \<times> int \<times> int" where
  "civil_of_year y doy = civil_of_month y ((5 * doy + 2) div 153) doy"

definition civil_of_quad :: "int \<Rightarrow> int \<Rightarrow> int \<Rightarrow> int \<times> int \<times> int" where
  "civil_of_quad y yoq doq = civil_of_year (y + yoq) (doq - yoq * 365)"

definition civil_of_century :: "int \<Rightarrow> int \<Rightarrow> int \<Rightarrow> int \<times> int \<times> int" where
  "civil_of_century y quad doc =
     civil_of_quad (y + quad * 4) (min ((doc - quad * 1461) div 365) 3) (doc - quad * 1461)"

definition civil_of_era :: "int \<Rightarrow> int \<Rightarrow> int \<Rightarrow> int \<times> int \<times> int" where
  "civil_of_era y cent doe =
     civil_of_century (y + cent * 100) ((doe - cent * 36524) div 1461) (doe - cent * 36524)"

definition civil_of_shifted :: "int \<Rightarrow> int \<Rightarrow> int \<times> int \<times> int" where
  "civil_of_shifted era doe = civil_of_era (era * 400) (min (doe div 36524) 3) doe"

definition civil_from_days :: "int \<Rightarrow> int \<times> int \<times> int" where
  "civil_from_days z = civil_of_shifted ((z + 719468) div 146097) ((z + 719468) mod 146097)"

definition days_of_civil :: "int \<Rightarrow> int \<Rightarrow> int \<Rightarrow> int \<Rightarrow> int" where
  "days_of_civil y' mp d yoe =
     (y' div 400) * 146097 + (yoe * 365 + yoe div 4 - yoe div 100 + ((153 * mp + 2) div 5 + d - 1))
       - 719468"

definition days_from_civil :: "int \<Rightarrow> int \<Rightarrow> int \<Rightarrow> int" where
  "days_from_civil y m d =
     (if m \<le> 2 then days_of_civil (y - 1) (m + 9) d ((y - 1) mod 400)
      else days_of_civil y (m - 3) d (y mod 400))"

definition getFullYear :: "Date \<Rightarrow> int" where
  "getFullYear t = fst (civil_from_days (t div MS_PER_DAY))"

definition getMonth1 :: "Date \<Rightarrow> int" where
  "getMonth1 t = fst (snd (civil_from_days (t div MS_PER_DAY)))"

definition getDate :: "Date \<Rightarrow> int" where
  "getDate t = snd (snd (civil_from_days (t div MS_PER_DAY)))"

text \<open>\<open>getDay\<close>: 0 is Sunday; the epoch was a Thursday.\<close>

definition getDay :: "Date \<Rightarrow> int" where
  "getDay t = (t div MS_PER_DAY + 4) mod 7"

definition startOfDay :: "Date \<Rightarrow> Date" where
  "startOfDay t = (t div MS_PER_DAY) * MS_PER_DAY"

text \<open>\<open>startOfWeek\<close> and \<open>endOfWeek\<close> with \<open>weekStartsOn: 1\<close>.\<close>

definition startOfWeek :: "Date \<Rightarrow> Date" where
  "startOfWeek t =
     (let day = getDay t;
          diff = (if day < 1 then 7 else 0) + day - 1
      in startOfDay t - diff * MS_PER_DAY)"

definition endOfWeek :: "Date \<Rightarrow> Date" where
  "endOfWeek t =
     (let day = getDay t;
          diff = (if day < 1 then - 7 else 0) + 6 - (day - 1)
      in startOfDay t + diff * MS_PER_DAY + (MS_PER_DAY - 1))"

function eachDay_loop :: "Date \<Rightarrow> Date \<Rightarrow> Date list" where
  "eachDay_loop currentDate endTime =
     (if currentDate \<le> endTime
      then currentDate # eachDay_loop (startOfDay (currentDate + MS_PER_DAY)) endTime
      else [])"
  by pat_completeness auto
termination
proof (relation "measure (\<lambda>(c, e). nat (e - c + 1))")
  show "wf (measure (\<lambda>(c, e). nat (e - c + 1)))" by simp
next
  fix currentDate endTime :: int
  assume "currentDate \<le> endTime"
  moreover have "currentDate < startOfDay (currentDate + MS_PER_DAY)"
  proof -
    have "(currentDate + 86400000) div 86400000 * 86400000 =
        currentDate + 86400000 - (currentDate + 86400000) mod 86400000"
      by (simp add: minus_mod_eq_div_mult [symmetric])
    moreover have "(currentDate + 86400000) mod 86400000 < 86400000" by simp
    ultimately show ?thesis unfolding startOfDay_def MS_PER_DAY_def by linarith
  qed
  ultimately show "((startOfDay (currentDate + MS_PER_DAY), endTime), (currentDate, endTime))
      \<in> measure (\<lambda>(c, e). nat (e - c + 1))"
    by simp
qed

text \<open>
  \<open>eachDayOfInterval\<close>. What it does with an interval that ends before it starts
  depends on the version of the library; the code never asks for one, and the model
  gives \<open>None\<close> there.
\<close>

declare eachDay_loop.simps [simp del]

definition eachDayOfInterval :: "Date \<Rightarrow> Date \<Rightarrow> Date list option" where
  "eachDayOfInterval start endDate =
     (if start \<le> endDate then Some (eachDay_loop (startOfDay start) endDate) else None)"

section \<open>Formatting and parsing dates\<close>

definition padStart :: "nat \<Rightarrow> char \<Rightarrow> string \<Rightarrow> string" where
  "padStart targetLength c s = replicate (targetLength - length s) c @ s"

definition addLeadingZeros :: "int \<Rightarrow> nat \<Rightarrow> string" where
  "addLeadingZeros n targetLength =
     (if n < 0 then ''-'' else '''') @ padStart targetLength (CHR ''0'') (decimal_of_nat (nat \<bar>n\<bar>))"

text \<open>The tokens \<open>yyyy\<close> (the year of the era: year 0 prints as 1), \<open>MM\<close>, \<open>dd\<close>.\<close>

definition year_of_era :: "int \<Rightarrow> int" where
  "year_of_era signedYear = (if signedYear > 0 then signedYear else 1 - signedYear)"

definition format_yyyy :: "Date \<Rightarrow> string" where
  "format_yyyy t = addLeadingZeros (year_of_era (getFullYear t)) 4"

definition format_MM :: "Date \<Rightarrow> string" where
  "format_MM t = addLeadingZeros (getMonth1 t) 2"

definition format_dd :: "Date \<Rightarrow> string" where
  "format_dd t = addLeadingZeros (getDate t) 2"

definition format_yyyy_MM_dd :: "Date \<Rightarrow> string" where
  "format_yyyy_MM_dd t = format_yyyy t @ ''-'' @ format_MM t @ ''-'' @ format_dd t"

definition format_MMM :: "Date \<Rightarrow> string" where
  "format_MMM t =
     [''Jan'', ''Feb'', ''Mar'', ''Apr'', ''May'', ''Jun'',
      ''Jul'', ''Aug'', ''Sep'', ''Oct'', ''Nov'', ''Dec''] ! nat (getMonth1 t - 1)"

definition format_EEEE :: "Date \<Rightarrow> string" where
  "format_EEEE t =
     [''Sunday'', ''Monday'', ''Tuesday'', ''Wednesday'', ''Thursday'', ''Friday'',
      ''Saturday''] ! nat (getDay t)"

definition format_MMM_dd :: "Date \<Rightarrow> string" where
  "format_MMM_dd t = format_MMM t @ '' '' @ format_dd t"

definition format_MMM_dd_yyyy :: "Date \<Rightarrow> string" where
  "format_MMM_dd_yyyy t = format_MMM t @ '' '' @ format_dd t @ '', '' @ format_yyyy t"

definition digit_value :: "char \<Rightarrow> int option" where
  "digit_value c =
     map_of [(CHR ''0'', 0), (CHR ''1'', 1), (CHR ''2'', 2), (CHR ''3'', 3), (CHR ''4'', 4),
             (CHR ''5'', 5), (CHR ''6'', 6), (CHR ''7'', 7), (CHR ''8'', 8), (CHR ''9'', 9)] c"

fun digits_value :: "string \<Rightarrow> int \<Rightarrow> int option" where
  "digits_value [] acc = Some acc"
| "digits_value (c # cs) acc =
     (case digit_value c of None \<Rightarrow> None | Some v \<Rightarrow> digits_value cs (acc * 10 + v))"

text \<open>
  \<open>parseISO\<close> on a complete calendar date \<open>YYYY-MM-DD\<close>, the only form the code
  hands to it: midnight of that day, or \<open>None\<close> for an Invalid Date (a month or a day
  out of range, or a string that is not of that form; the other forms of ISO 8601
  that the library reads are not modelled).
\<close>

definition parseISO :: "string \<Rightarrow> Date option" where
  "parseISO s =
     (if length s = 10 \<and> s ! 4 = CHR ''-'' \<and> s ! 7 = CHR ''-''
      then
        (case digits_value (take 4 s) 0 of
           None \<Rightarrow> None
         | Some y \<Rightarrow>
             (case digits_value (take 2 (drop 5 s)) 0 of
                None \<Rightarrow> None
              | Some m \<Rightarrow>
                  (case digits_value (drop 8 s) 0 of
                     None \<Rightarrow> None
                   | Some d \<Rightarrow>
                       if 1 \<le> m \<and> m \<le> 12 \<and> 1 \<le> d \<and> d \<le> days_in_month y m
                       then Some (days_from_civil y m d * MS_PER_DAY)
                       else None)))
      else None)"

text \<open>
  The instants of the years 0001 to 9999, whose \<open>yyyy-MM-dd\<close> key has a year of four
  digits: from 0001-01-01T00:00:00.000 to 9999-12-31T23:59:59.999.
\<close>

definition MIN_DATE :: Date where
  "MIN_DATE = - 62135596800000"

definition MAX_DATE :: Date where
  "MAX_DATE = 253402300799999"

definition four_digit_year :: "Date \<Rightarrow> bool" where
  "four_digit_year t = (MIN_DATE \<le> t \<and> t \<le> MAX_DATE)"

section \<open>Aggregator\<close>

text \<open>
  A \<open>Map\<close> from keys to arrays, in insertion order of its keys. \<open>map_push\<close> is the
  body of the grouping loops: \<open>if (!m.has(k)) m.set(k, []); m.get(k).push(v)\<close>.
\<close>

fun map_push :: "(string \<times> 'a list) list \<Rightarrow> string \<Rightarrow> 'a \<Rightarrow> (string \<times> 'a list) list" where
  "map_push [] k v = [(k, [v])]"
| "map_push ((k', vs) # m) k v =
     (if k' = k then (k', vs @ [v]) # m else (k', vs) # map_push m k v)"

fun group_loop ::
  "('a \<Rightarrow> string) \<Rightarrow> 'a list \<Rightarrow> (string \<times> 'a list) list \<Rightarrow> (string \<times> 'a list) list" where
  "group_loop key [] m = m"
| "group_loop key (x # xs) m = group_loop key xs (map_push m (key x) x)"

record DailyTimesheet =
  dt_date :: Date
  dt_dateStr :: string
  dt_dayName :: string
  dt_entries :: "TimeEntry list"
  dt_totalHours :: rat


text \<open>
  The callback of \<open>sortedKeys.map\<close> in \<open>groupByDay\<close>. \<open>None\<close> stands for an
  exception: reading a key the map does not have, or formatting an Invalid Date.
\<close>

definition day_of_key :: "(string \<times> TimeEntry list) list \<Rightarrow> string \<Rightarrow> DailyTimesheet option" where
  "day_of_key dayMap dateKey =
     (case map_of dayMap dateKey of
        None \<Rightarrow> None
      | Some dayEntries \<Rightarrow>
          (case parseISO dateKey of
             None \<Rightarrow> None
           | Some date \<Rightarrow>
               let sorted = sort_key te_date dayEntries
               in Some \<lparr>dt_date = date,
                         dt_dateStr = format_MMM_dd_yyyy date,
                         dt_dayName = format_EEEE date,
                         dt_entries = sorted,
                         dt_totalHours = foldl (\<lambda>sum e. sum + te_hours e) 0 sorted\<rparr>))"

definition entry_dayKey :: "TimeEntry \<Rightarrow> string" where
  "entry_dayKey entry = format_yyyy_MM_dd (te_date entry)"

definition groupByDay :: "TimeEntry list \<Rightarrow> DailyTimesheet list option" where
  "groupByDay entries =
     (let dayMap = group_loop entry_dayKey entries [];
          sortedKeys = sort (map fst dayMap)
      in those (map (day_of_key dayMap) sortedKeys))"










text \<open>
  The day the aggregator makes of the entries of one calendar date, as the specification
  words it: the entries in ascending order of timestamp, and the sum of their hours.
\<close>

definition day_sheet :: "Date \<Rightarrow> TimeEntry list \<Rightarrow> DailyTimesheet" where
  "day_sheet date dayEntries =
     \<lparr>dt_date = date,
      dt_dateStr = format_MMM_dd_yyyy date,
      dt_dayName = format_EEEE date,
      dt_entries = sort_key te_date dayEntries,
      dt_totalHours = sum_list (map te_hours dayEntries)\<rparr>"




section \<open>Commit estimator: draft entries\<close>

record RepoConfig =
  rc_id :: string
  rc_name :: string
  rc_fullName :: string
  rc_autoCalculate :: bool
  rc_defaultHours :: rat

record DraftEntry =
  de_id :: string
  de_date :: Date
  de_repo :: string
  de_repoFullName :: string
  de_message :: string
  de_hours :: rat
  de_selected :: bool
  de_commits :: "GitCommit list"

text \<open>\<open>s.split(sep)\<close> for a separator of one character.\<close>

fun split_on :: "char \<Rightarrow> string \<Rightarrow> string list" where
  "split_on sep [] = [[]]"
| "split_on sep (c # cs) =
     (if c = sep then [] # split_on sep cs
      else (case split_on sep cs of
              [] \<Rightarrow> [[c]]
            | p # ps \<Rightarrow> (c # p) # ps))"

fun join :: "string \<Rightarrow> string list \<Rightarrow> string" where
  "join sep [] = []"
| "join sep [s] = s"
| "join sep (s # t # ss) = s @ sep @ join sep (t # ss)"

definition first_line :: "GitCommit \<Rightarrow> string" where
  "first_line c = (case split_on (CHR 0x0A) (gc_message c) of [] \<Rightarrow> [] | l # ls \<Rightarrow> l)"

definition commit_key :: "GitCommit \<Rightarrow> string" where
  "commit_key commit = format_yyyy_MM_dd (startOfDay (gc_date commit)) @ ''_'' @ gc_repo commit"

text \<open>
  The body of the loop that creates the draft entries. \<open>None\<close> stands for a key that
  does not read back as a date (the sort that follows would compare on NaN) and for the
  exception of reading the first commit of an empty group; neither arises for commits of
  the years 0001 to 9999.
\<close>

definition draft_of_group :: "RepoConfig list \<Rightarrow> string \<times> GitCommit list \<Rightarrow> DraftEntry option" where
  "draft_of_group repos entry =
     (case entry of (key, repoCommits) \<Rightarrow>
        (case split_on (CHR ''_'') key of
           dateStr # repo # rest \<Rightarrow>
             (case parseISO dateStr of
                None \<Rightarrow> None
              | Some date \<Rightarrow>
                  (case repoCommits of
                     [] \<Rightarrow> None
                   | firstCommit # others \<Rightarrow>
                       let repoConfig = find (\<lambda>r. rc_name r = repo) repos;
                           hours =
                             (case repoConfig of
                                None \<Rightarrow> 2
                              | Some r \<Rightarrow>
                                  if rc_autoCalculate r then calculateHours repoCommits
                                  else if rc_defaultHours r = 0 then 2
                                  else rc_defaultHours r)
                       in Some \<lparr>de_id = key,
                                 de_date = date,
                                 de_repo = repo,
                                 de_repoFullName = gc_repoFullName firstCommit,
                                 de_message =
                                   join '', '' (map first_line repoCommits),
                                 de_hours = hours,
                                 de_selected = True,
                                 de_commits = repoCommits\<rparr>))
         | _ \<Rightarrow> None))"

definition processCommits :: "RepoConfig list \<Rightarrow> GitCommit list \<Rightarrow> DraftEntry list option" where
  "processCommits repos commitsList =
     (let grouped = group_loop commit_key commitsList []
      in map_option (sort_key (\<lambda>e. - de_date e)) (those (map (draft_of_group repos) grouped)))"

section \<open>Example data\<close>

definition commit_at :: "Date \<Rightarrow> GitCommit" where
  "commit_at t =
     \<lparr>gc_sha = ''c0ffee'', gc_message = ''work'', gc_date = t, gc_repo = ''X'',
      gc_repoFullName = ''me/X'', gc_author = ''me'', gc_url = ''u''\<rparr>"

definition task_at :: "string \<Rightarrow> Date \<Rightarrow> (string \<times> bool) list \<Rightarrow> PlannerTask" where
  "task_at i t cats =
     \<lparr>pt_id = i, pt_title = ''task'', pt_planId = ''plan'', pt_bucketId = ''bucket'',
      pt_createdDateTime = t, pt_dueDateTime = Some t, pt_startDateTime = None,
      pt_completedDateTime = None, pt_percentComplete = 0, pt_priority = 5,
      pt_appliedCategories = cats\<rparr>"

definition entry_at :: "string \<Rightarrow> Date \<Rightarrow> (string \<times> bool) list \<Rightarrow> TimeEntry" where
  "entry_at i t cats = taskToTimeEntry (task_at i t cats) (Some ''Develop'')"

definition failing_service :: GraphService where
  "failing_service =
     \<lparr>getBuckets = (\<lambda>p. Inl (ErrorValue ''HTTP 429'')), getMyTasks = (\<lambda>n. Inr [])\<rparr>"

definition loaded_state :: AppState where
  "loaded_state =
     \<lparr>st_entries = [entry_at ''t1'' 1710061200000 [(''category4'', True)]],
      st_allMyTasks = [entry_at ''t1'' 1710061200000 [(''category4'', True)]],
      st_buckets = [], st_selectedBucketId = None, st_loading = False, st_error = None\<rparr>"

definition march_entries :: "TimeEntry list" where
  "march_entries =
     [entry_at ''a'' 1710061200000 [(''category4'', True)],
      entry_at ''b'' 1709974800000 [(''2h'', True)],
      entry_at ''c'' 1710050000000 [(''category1'', True)]]"


definition underscore_repo :: RepoConfig where
  "underscore_repo =
     \<lparr>rc_id = ''1'', rc_name = ''my_repo'', rc_fullName = ''me/my_repo'',
      rc_autoCalculate = False, rc_defaultHours = 3\<rparr>"

section \<open>Properties of the label decoder\<close>

lemma floor_rat_numeral [simp]:
  "\<lfloor>numeral a / numeral b :: rat\<rfloor> = numeral a div numeral b"
  by (metis floor_divide_of_int_eq of_int_numeral)







section \<open>Properties of the hour estimate of one group\<close>
















section \<open>Range of the hour values\<close>









section \<open>Properties of the range filter\<close>

text \<open>
  Claim C4. For every entry list and pair of dates, the filter keeps exactly the entries
  dated at or after the start and at or before the end plus 23 hours (not 23:59:59.999:
  an entry later than the end plus 23 hours is dropped). An entry dated exactly at the
  start is kept (whenever the range is not empty, that is, the start is not after the end
  plus 23 hours), and an entry dated one full day after the end plus 23 hours is dropped.
\<close>

theorem filterByDateRange_exact:
  "filterByDateRange es s e = filter (\<lambda>x. s \<le> te_date x \<and> te_date x \<le> e + 23 * 3600000) es
   \<and> (x \<in> set es \<and> te_date x = s \<and> s \<le> e + 23 * 3600000 \<longrightarrow>
        x \<in> set (filterByDateRange es s e))
   \<and> (te_date x = e + 23 * 3600000 + 86400000 \<longrightarrow> x \<notin> set (filterByDateRange es s e))
   \<and> (e + 23 * 3600000 < te_date x \<longrightarrow> x \<notin> set (filterByDateRange es s e))"
  by (auto simp: filterByDateRange_def addHours_def MS_PER_HOUR_def Let_def)

theorem filterByDateRange_exact_witness:
  "filterByDateRange
     [entry_at ''a'' 1710028800000 [], entry_at ''b'' 1710282600000 [],
      entry_at ''c'' 1710286200000 [], entry_at ''d'' 1710370800000 []]
     1710028800000 1710201600000 =
   [entry_at ''a'' 1710028800000 [], entry_at ''b'' 1710282600000 []]
   \<and> entry_at ''a'' 1710028800000 [] \<in> set (filterByDateRange
     [entry_at ''a'' 1710028800000 [], entry_at ''b'' 1710282600000 [],
      entry_at ''c'' 1710286200000 [], entry_at ''d'' 1710370800000 []]
     1710028800000 1710201600000)
   \<and> entry_at ''d'' 1710370800000 [] \<notin> set (filterByDateRange
     [entry_at ''a'' 1710028800000 [], entry_at ''b'' 1710282600000 [],
      entry_at ''c'' 1710286200000 [], entry_at ''d'' 1710370800000 []]
     1710028800000 1710201600000)"
  using filterByDateRange_exact
    [where es = "[entry_at ''a'' 1710028800000 [], entry_at ''b'' 1710282600000 [],
                  entry_at ''c'' 1710286200000 [], entry_at ''d'' 1710370800000 []]"
       and s = 1710028800000 and e = 1710201600000 and x = "entry_at ''a'' 1710028800000 []"]
    filterByDateRange_exact
    [where es = "[entry_at ''a'' 1710028800000 [], entry_at ''b'' 1710282600000 [],
                  entry_at ''c'' 1710286200000 [], entry_at ''d'' 1710370800000 []]"
       and s = 1710028800000 and e = 1710201600000 and x = "entry_at ''d'' 1710370800000 []"]
  by (simp add: entry_at_def taskToTimeEntry_def task_at_def Let_def
      parseHoursFromCategories_def)

section \<open>Properties of loading the data of a plan\<close>

text \<open>
  Claim C10 (as amended). Whenever a remote fetch performed while loading plan data
  fails, the operation records an error message in the view state (it does not reject),
  empties the entry list and the task list, and ends with the loading flag off; the
  selected bucket is left as it was, and the bucket list is replaced only when the bucket
  fetch had succeeded. No request is issued twice (no retry), and no entry is built from
  a partial result.
\<close>

theorem loadPlanData_failure:
  assumes "fetch_failed graphService planId"
  shows "let (st', requests) = loadPlanData graphService planId st
         in st_error st' \<noteq> None \<and> st_entries st' = [] \<and> st_allMyTasks st' = [] \<and>
            \<not> st_loading st' \<and> st_selectedBucketId st' = st_selectedBucketId st \<and>
            distinct requests \<and>
            st_buckets st' =
              (case getBuckets graphService planId of Inl e \<Rightarrow> st_buckets st | Inr bs \<Rightarrow> bs)"
  using assms
  by (auto simp: fetch_failed_def loadPlanData_def catch_block_def finally_block_def Let_def
      split: sum.splits)

theorem loadPlanData_failure_witness:
  "fetch_failed failing_service ''plan''
   \<and> (let (st', requests) = loadPlanData failing_service ''plan'' loaded_state
      in st_error st' = Some ''Too many requests. Please wait a moment and try again.'' \<and>
         st_entries st' = [] \<and> st_allMyTasks st' = [] \<and> requests = [GetBuckets ''plan''])"
proof -
  have f: "fetch_failed failing_service ''plan''"
    by (simp add: fetch_failed_def failing_service_def)
  show ?thesis
    using f loadPlanData_failure [OF f, of loaded_state]
    by (simp add: loadPlanData_def failing_service_def catch_block_def finally_block_def)
qed

theorem loadPlanData_failure_counterexample:
  "fetch_failed failing_service ''plan''
   \<and> st_entries loaded_state \<noteq> []
   \<and> st_entries (fst (loadPlanData failing_service ''plan'' loaded_state)) = []"
  by (simp add: fetch_failed_def loadPlanData_def failing_service_def catch_block_def
      finally_block_def loaded_state_def)

section \<open>Properties of the calendar\<close>

lemma cent_bounds:
  fixes doe :: int
  assumes "0 \<le> doe" "doe < 146097"
    and cent_def: "cent = min (doe div 36524) 3"
    and doc_def: "doc = doe - cent * 36524"
  shows "0 \<le> cent" "cent \<le> 3" "0 \<le> doc" "doc \<le> 36524" "cent < 3 \<longrightarrow> doc < 36524"
proof -
  have q: "0 \<le> doe div 36524" "doe div 36524 \<le> 4" using assms by simp_all
  have r: "doe div 36524 * 36524 \<le> doe" "doe < doe div 36524 * 36524 + 36524"
    using div_mult_mod_eq [of doe 36524] pos_mod_bound [of 36524 doe] pos_mod_sign [of 36524 doe]
    by linarith+
  show "0 \<le> cent" "cent \<le> 3" using q by (simp_all add: cent_def)
  show "0 \<le> doc" using q r by (simp add: doc_def cent_def min_def)
  show "doc \<le> 36524" using q r assms(2) by (simp add: doc_def cent_def min_def)
  show "cent < 3 \<longrightarrow> doc < 36524" using q r by (simp add: doc_def cent_def min_def)
qed

lemma quad_bounds:
  fixes doc :: int
  assumes "0 \<le> doc" "doc \<le> 36524"
    and quad_def: "quad = doc div 1461"
    and doq_def: "doq = doc - quad * 1461"
  shows "0 \<le> quad" "quad \<le> 24" "0 \<le> doq" "doq \<le> 1460" "doc < 36524 \<and> quad = 24 \<longrightarrow> doq < 1460"
proof -
  have r: "quad * 1461 \<le> doc" "doc < quad * 1461 + 1461"
    using div_mult_mod_eq [of doc 1461] pos_mod_bound [of 1461 doc] pos_mod_sign [of 1461 doc]
    unfolding quad_def by linarith+
  show "0 \<le> quad" "quad \<le> 24" using assms(1,2) r by linarith+
  show "0 \<le> doq" "doq \<le> 1460" using r by (simp_all add: doq_def)
  show "doc < 36524 \<and> quad = 24 \<longrightarrow> doq < 1460" using r by (auto simp: doq_def)
qed

lemma yoq_bounds:
  fixes doq :: int
  assumes "0 \<le> doq" "doq \<le> 1460"
    and yoq_def: "yoq = min (doq div 365) 3"
    and doy_def: "doy = doq - yoq * 365"
  shows "0 \<le> yoq" "yoq \<le> 3" "0 \<le> doy" "doy \<le> 365" "doy = 365 \<longrightarrow> yoq = 3 \<and> doq = 1460"
proof -
  have q: "0 \<le> doq div 365" "doq div 365 \<le> 4" using assms by simp_all
  have r: "doq div 365 * 365 \<le> doq" "doq < doq div 365 * 365 + 365"
    using div_mult_mod_eq [of doq 365] pos_mod_bound [of 365 doq] pos_mod_sign [of 365 doq]
    by linarith+
  show "0 \<le> yoq" "yoq \<le> 3" using q by (simp_all add: yoq_def)
  show "0 \<le> doy" using q r by (simp add: doy_def yoq_def min_def)
  show "doy \<le> 365" using q r assms(2) by (simp add: doy_def yoq_def min_def)
  show "doy = 365 \<longrightarrow> yoq = 3 \<and> doq = 1460" using q r assms(2) by (auto simp: doy_def yoq_def min_def)
qed

lemma month_bounds:
  fixes doy :: int
  assumes "0 \<le> doy" "doy \<le> 365"
    and mp_def: "mp = (5 * doy + 2) div 153"
    and d_def: "d = doy - (153 * mp + 2) div 5 + 1"
  shows "0 \<le> mp" "mp \<le> 11" "1 \<le> d" "d \<le> 31"
    "mp = 1 \<or> mp = 3 \<or> mp = 6 \<or> mp = 8 \<longrightarrow> d \<le> 30"
    "mp = 11 \<longrightarrow> d = doy - 336"
    "mp < 10 \<longleftrightarrow> doy < 306"
proof -
  have r: "mp * 153 \<le> 5 * doy + 2" "5 * doy + 2 < mp * 153 + 153"
    using div_mult_mod_eq [of "5 * doy + 2" 153] pos_mod_bound [of 153 "5 * doy + 2"]
      pos_mod_sign [of 153 "5 * doy + 2"]
    unfolding mp_def by linarith+
  show b: "0 \<le> mp" "mp \<le> 11" using assms(1,2) r by linarith+
  then have c: "mp = 0 \<or> mp = 1 \<or> mp = 2 \<or> mp = 3 \<or> mp = 4 \<or> mp = 5 \<or> mp = 6 \<or> mp = 7 \<or>
      mp = 8 \<or> mp = 9 \<or> mp = 10 \<or> mp = 11" by presburger
  show "1 \<le> d" using c r unfolding d_def by auto
  show "d \<le> 31" using c r assms(2) unfolding d_def by auto
  show "mp = 1 \<or> mp = 3 \<or> mp = 6 \<or> mp = 8 \<longrightarrow> d \<le> 30" using r unfolding d_def by auto
  show "mp = 11 \<longrightarrow> d = doy - 336" unfolding d_def by auto
  show "mp < 10 \<longleftrightarrow> doy < 306" using r by linarith
qed

lemma civil_from_days_parts:
  obtains era cent quad yoq doy mp :: int where
    "z = era * 146097 + cent * 36524 + quad * 1461 + yoq * 365 + doy - 719468"
    "0 \<le> cent * 36524 + quad * 1461 + yoq * 365 + doy"
    "cent * 36524 + quad * 1461 + yoq * 365 + doy < 146097"
    "0 \<le> cent \<and> cent \<le> 3" "0 \<le> quad \<and> quad \<le> 24" "0 \<le> yoq \<and> yoq \<le> 3"
    "0 \<le> doy \<and> doy \<le> 365"
    "doy = 365 \<longrightarrow> yoq = 3 \<and> (quad = 24 \<longrightarrow> cent = 3)"
    "mp = (5 * doy + 2) div 153"
    "civil_from_days z = civil_of_month (era * 400 + cent * 100 + quad * 4 + yoq) mp doy"
proof -
  define era where "era = (z + 719468) div 146097"
  define doe where "doe = (z + 719468) mod 146097"
  define cent where "cent = min (doe div 36524) 3"
  define doc where "doc = doe - cent * 36524"
  define quad where "quad = doc div 1461"
  define doq where "doq = doc - quad * 1461"
  define yoq where "yoq = min (doq div 365) 3"
  define doy where "doy = doq - yoq * 365"
  define mp where "mp = (5 * doy + 2) div 153"
  have doe: "0 \<le> doe" "doe < 146097" by (simp_all add: doe_def)
  have z: "z = era * 146097 + doe - 719468"
    unfolding era_def doe_def using div_mult_mod_eq [of "z + 719468" 146097] by linarith
  note c = cent_bounds [OF doe cent_def doc_def]
  note q = quad_bounds [OF c(3,4) quad_def doq_def]
  note yq = yoq_bounds [OF q(3,4) yoq_def doy_def]
  have doe_eq: "doe = cent * 36524 + quad * 1461 + yoq * 365 + doy"
    unfolding doy_def doq_def doc_def by linarith
  have leap: "doy = 365 \<longrightarrow> yoq = 3 \<and> (quad = 24 \<longrightarrow> cent = 3)"
  proof
    assume "doy = 365"
    with yq(5) have s: "yoq = 3" "doq = 1460" by simp_all
    have "cent = 3" if "quad = 24"
    proof -
      from q(5) s that have "\<not> doc < 36524" by auto
      with c(5) c(2) show ?thesis by linarith
    qed
    with s show "yoq = 3 \<and> (quad = 24 \<longrightarrow> cent = 3)" by simp
  qed
  have cv: "civil_from_days z = civil_of_month (era * 400 + cent * 100 + quad * 4 + yoq) mp doy"
    unfolding civil_from_days_def civil_of_shifted_def civil_of_era_def civil_of_century_def
      civil_of_quad_def civil_of_year_def era_def doe_def cent_def doc_def quad_def doq_def
      yoq_def doy_def mp_def
    by (rule refl)
  show thesis
  proof (rule that [of era cent quad yoq doy mp])
    show "z = era * 146097 + cent * 36524 + quad * 1461 + yoq * 365 + doy - 719468"
      using z doe_eq by linarith
    show "0 \<le> cent * 36524 + quad * 1461 + yoq * 365 + doy"
      using doe(1) doe_eq by linarith
    show "cent * 36524 + quad * 1461 + yoq * 365 + doy < 146097"
      using doe(2) doe_eq by linarith
    show "0 \<le> cent \<and> cent \<le> 3" using c(1,2) by simp
    show "0 \<le> quad \<and> quad \<le> 24" using q(1,2) by simp
    show "0 \<le> yoq \<and> yoq \<le> 3" using yq(1,2) by simp
    show "0 \<le> doy \<and> doy \<le> 365" using yq(3,4) by simp
    show "doy = 365 \<longrightarrow> yoq = 3 \<and> (quad = 24 \<longrightarrow> cent = 3)" by (rule leap)
    show "mp = (5 * doy + 2) div 153" by (rule mp_def)
    show "civil_from_days z = civil_of_month (era * 400 + cent * 100 + quad * 4 + yoq) mp doy" by (rule cv)
  qed
qed

lemma civil_from_days_inverse:
  assumes "civil_from_days z = (y, m, d)"
  shows "1 \<le> m \<and> m \<le> 12 \<and> 1 \<le> d \<and> d \<le> days_in_month y m \<and> days_from_civil y m d = z"
proof -
  obtain era cent quad yoq doy mp :: int where
    z: "z = era * 146097 + cent * 36524 + quad * 1461 + yoq * 365 + doy - 719468"
    and c: "0 \<le> cent \<and> cent \<le> 3" and q: "0 \<le> quad \<and> quad \<le> 24"
    and yq: "0 \<le> yoq \<and> yoq \<le> 3" and dy: "0 \<le> doy \<and> doy \<le> 365"
    and leap: "doy = 365 \<longrightarrow> yoq = 3 \<and> (quad = 24 \<longrightarrow> cent = 3)"
    and mp: "mp = (5 * doy + 2) div 153"
    and cv: "civil_from_days z = civil_of_month (era * 400 + cent * 100 + quad * 4 + yoq) mp doy"
    by (rule civil_from_days_parts [of z]) blast
  define yoe where "yoe = cent * 100 + quad * 4 + yoq"
  have dy1: "0 \<le> doy" and dy2: "doy \<le> 365" using dy by simp_all
  note mo0 = month_bounds [OF dy1 dy2 mp refl]
  from assms cv have d: "d = doy - (153 * mp + 2) div 5 + 1"
    and m: "m = (if mp < 10 then mp + 3 else mp - 9)"
    and y1: "y = era * 400 + cent * 100 + quad * 4 + yoq + (if mp < 10 then 0 else 1)"
    by (auto simp: civil_of_month_def split: if_splits)
  have m2: "m \<le> 2 \<longleftrightarrow> \<not> mp < 10" using mo0(1,2) by (auto simp: m)
  have y0: "y = era * 400 + cent * 100 + quad * 4 + yoq + (if m \<le> 2 then 1 else 0)"
    unfolding y1 m2 by simp
  have y: "y = era * 400 + yoe + (if m \<le> 2 then 1 else 0)"
    unfolding y0 yoe_def by simp
  note mo = month_bounds [OF dy1 dy2 mp d]
  have m_range: "1 \<le> m" "m \<le> 12" using mo(1,2) by (auto simp: m)
  have mp_back: "(if m > 2 then m - 3 else m + 9) = mp" using mo(1,2) by (auto simp: m)
  have yoe_range: "0 \<le> yoe" "yoe < 400"
    using c q yq unfolding yoe_def by linarith+
  have y': "(if m \<le> 2 then y - 1 else y) = era * 400 + yoe" by (simp add: y)
  have "yoe = yoq + (cent * 25 + quad) * 4" unfolding yoe_def by simp
  then have "yoe div 4 = cent * 25 + quad + yoq div 4" by simp
  then have yoe4: "yoe div 4 = cent * 25 + quad" using yq by simp
  have "yoe = (quad * 4 + yoq) + cent * 100" unfolding yoe_def by simp
  then have "yoe div 100 = cent + (quad * 4 + yoq) div 100" by simp
  moreover have "(quad * 4 + yoq) div 100 = 0" using q yq by simp
  ultimately have yoe100: "yoe div 100 = cent" by simp
  have doe_back: "yoe * 365 + yoe div 4 - yoe div 100 + doy =
      cent * 36524 + quad * 1461 + yoq * 365 + doy"
    unfolding yoe4 yoe100 unfolding yoe_def by (simp add: algebra_simps)
  have dm: "(era * 400 + yoe) div 400 = era" "(era * 400 + yoe) mod 400 = yoe"
    using yoe_range by simp_all
  have doy_back: "(153 * mp + 2) div 5 + d - 1 = doy" by (simp add: d)
  have core: "days_of_civil (era * 400 + yoe) mp d yoe = z"
    unfolding days_of_civil_def dm using doe_back z doy_back by linarith
  have inv: "days_from_civil y m d = z"
  proof (cases "m \<le> 2")
    case True
    with y' have a: "y - 1 = era * 400 + yoe" by simp
    from True mp_back have b: "m + 9 = mp" by simp
    have "days_from_civil y m d = days_of_civil (y - 1) (m + 9) d ((y - 1) mod 400)"
      using True by (simp only: days_from_civil_def if_True)
    also have "\<dots> = days_of_civil (era * 400 + yoe) mp d yoe"
      unfolding a b dm ..
    finally show ?thesis using core by simp
  next
    case False
    with y' have a: "y = era * 400 + yoe" by simp
    from False mp_back have b: "m - 3 = mp" by simp
    have "days_from_civil y m d = days_of_civil y (m - 3) d (y mod 400)"
      using False by (simp only: days_from_civil_def if_False)
    also have "\<dots> = days_of_civil (era * 400 + yoe) mp d yoe"
      unfolding a b dm ..
    finally show ?thesis using core by simp
  qed
  have d_low: "1 \<le> d" using mo(3) .
  have d_high: "d \<le> days_in_month y m"
  proof (cases "mp = 11")
    case True
    then have feb: "m = 2" by (simp add: m)
    have dd: "d = doy - 336" using mo(6) True by simp
    show ?thesis
    proof (cases "doy = 365")
      case False
      with dy dd feb show ?thesis by (simp add: days_in_month_def)
    next
      case leapday: True
      with leap have s: "yoq = 3" "quad = 24 \<longrightarrow> cent = 3" by simp_all
      have yy: "y = era * 400 + cent * 100 + quad * 4 + 4"
        using feb s by (simp add: y yoe_def)
      have "is_leap y"
      proof (cases "quad = 24")
        case True
        with s have "cent = 3" by simp
        with True yy have "y = (era + 1) * 400" by simp
        then have "y mod 4 = 0" "y mod 400 = 0" by simp_all
        then show ?thesis by (simp add: is_leap_def)
      next
        case False
        with q have "0 \<le> quad" "quad \<le> 23" by linarith+
        then have small: "0 \<le> quad * 4 + 4" "quad * 4 + 4 < 100" by linarith+
        have "y = (era * 100 + cent * 25 + quad + 1) * 4" unfolding yy by simp
        then have y4: "y mod 4 = 0" by simp
        define k where "k = era * 4 + cent"
        have "y = (quad * 4 + 4) + k * 100" unfolding yy k_def by simp
        then have "y mod 100 = (quad * 4 + 4) mod 100" by (simp only: mod_mult_self1)
        also have "\<dots> = quad * 4 + 4" using small by simp
        finally have ym: "y mod 100 = quad * 4 + 4" .
        from \<open>0 \<le> quad\<close> have "quad * 4 + 4 \<noteq> 0" by linarith
        then have "y mod 100 \<noteq> 0" unfolding ym .
        with y4 show ?thesis by (simp add: is_leap_def)
      qed
      with dd leapday feb show ?thesis by (simp add: days_in_month_def)
    qed
  next
    case False
    show ?thesis
    proof (cases "mp = 1 \<or> mp = 3 \<or> mp = 6 \<or> mp = 8")
      case True
      with mo(5) have "d \<le> 30" by simp
      moreover from True have "m = 4 \<or> m = 6 \<or> m = 9 \<or> m = 11" by (auto simp: m)
      ultimately show ?thesis by (auto simp: days_in_month_def)
    next
      case F2: False
      with False mo(1,2) have "m \<noteq> 2 \<and> m \<noteq> 4 \<and> m \<noteq> 6 \<and> m \<noteq> 9 \<and> m \<noteq> 11"
        by (auto simp: m)
      with mo(4) show ?thesis by (simp add: days_in_month_def)
    qed
  qed
  from m_range d_low d_high inv show ?thesis by blast
qed

lemma civil_year_range:
  assumes "civil_from_days z = (y, m, d)" "- 719162 \<le> z" "z \<le> 2932896"
  shows "1 \<le> y \<and> y \<le> 9999"
proof -
  obtain era cent quad yoq doy mp :: int where
    z: "z = era * 146097 + cent * 36524 + quad * 1461 + yoq * 365 + doy - 719468"
    and lo: "0 \<le> cent * 36524 + quad * 1461 + yoq * 365 + doy"
    and hi: "cent * 36524 + quad * 1461 + yoq * 365 + doy < 146097"
    and c: "0 \<le> cent \<and> cent \<le> 3" and q: "0 \<le> quad \<and> quad \<le> 24"
    and yq: "0 \<le> yoq \<and> yoq \<le> 3" and dy: "0 \<le> doy \<and> doy \<le> 365"
    and mp: "mp = (5 * doy + 2) div 153"
    and cv: "civil_from_days z = civil_of_month (era * 400 + cent * 100 + quad * 4 + yoq) mp doy"
    by (rule civil_from_days_parts [of z]) blast
  define yoe where "yoe = cent * 100 + quad * 4 + yoq"
  have dy1: "0 \<le> doy" and dy2: "doy \<le> 365" using dy by simp_all
  note mo = month_bounds [OF dy1 dy2 mp refl]
  from assms(1) cv have m: "m = (if mp < 10 then mp + 3 else mp - 9)"
    and y1: "y = era * 400 + cent * 100 + quad * 4 + yoq + (if mp < 10 then 0 else 1)"
    by (auto simp: civil_of_month_def split: if_splits)
  have m10: "m \<le> 2 \<longleftrightarrow> \<not> mp < 10" using mo(1,2) by (auto simp: m)
  have y0: "y = era * 400 + cent * 100 + quad * 4 + yoq + (if m \<le> 2 then 1 else 0)"
    unfolding y1 m10 by simp
  have y: "y = era * 400 + yoe + (if m \<le> 2 then 1 else 0)"
    unfolding y0 yoe_def by simp
  have m2: "m \<le> 2 \<longleftrightarrow> \<not> doy < 306" using mo(1,2,7) by (auto simp: m)
  have yoe_range: "0 \<le> yoe" "yoe \<le> 399"
    using c q yq unfolding yoe_def by linarith+
  have era: "0 \<le> era" "era \<le> 24" using z lo hi assms(2,3) by linarith+
  have low: "1 \<le> y"
  proof (cases "era = 0 \<and> yoe = 0")
    case True
    then have "cent = 0" "quad = 0" "yoq = 0"
      using c q yq unfolding yoe_def by linarith+
    with z True assms(2) have "\<not> doy < 306" by linarith
    with m2 True show ?thesis by (simp add: y)
  next
    case False
    with era(1) yoe_range(1) have "1 \<le> era * 400 + yoe" by linarith
    then show ?thesis by (simp add: y)
  qed
  have high: "y \<le> 9999"
  proof (cases "era = 24 \<and> yoe = 399")
    case True
    then have "cent = 3" "quad = 24" "yoq = 3"
      using c q yq unfolding yoe_def by linarith+
    with z True assms(3) have "doy < 306" by linarith
    with m2 True show ?thesis by (simp add: y)
  next
    case False
    with era(2) yoe_range(2) have "era * 400 + yoe \<le> 9998" by linarith
    then show ?thesis by (simp add: y)
  qed
  from low high show ?thesis ..
qed

section \<open>Properties of formatting and parsing\<close>

lemma digit_cases:
  assumes "k < 10"
  shows "k \<in> {0, 1, 2, 3, 4, 5, 6, 7, 8, 9 :: nat}"
  using assms by auto

lemma digit_value_digit_char: "n < 10 \<Longrightarrow> digit_value (digit_char n) = Some (int n)"
  by (drule digit_cases) (auto simp: digit_value_def digit_char_def)


lemma digits_value_append:
  "digits_value (s @ t) acc =
     (case digits_value s acc of None \<Rightarrow> None | Some v \<Rightarrow> digits_value t v)"
  by (induction s arbitrary: acc) (auto split: option.splits)

lemma digits_value_decimal: "digits_value (decimal_of_nat n) 0 = Some (int n)"
proof (induction n rule: decimal_of_nat.induct)
  case (1 n)
  show ?case
  proof (cases "10 \<le> n")
    case True
    have "n mod 10 < 10" by simp
    then have dv: "digit_value (digit_char (n mod 10)) = Some (int (n mod 10))"
      by (rule digit_value_digit_char)
    have "int (n div 10) * 10 + int (n mod 10) = int n"
      by (metis div_mult_mod_eq of_nat_add of_nat_mult of_nat_numeral)
    with True 1 dv show ?thesis
      by (subst decimal_of_nat.simps) (simp add: digits_value_append)
  next
    case False
    then have "n < 10" by simp
    with False show ?thesis
      by (subst decimal_of_nat.simps) (simp add: digit_value_digit_char)
  qed
qed

lemma length_decimal: "n < 10 ^ k \<Longrightarrow> 0 < k \<Longrightarrow> length (decimal_of_nat n) \<le> k"
proof (induction k arbitrary: n)
  case 0
  then show ?case by simp
next
  case (Suc k)
  show ?case
  proof (cases "10 \<le> n")
    case True
    with Suc.prems have k: "0 < k" by (cases k) auto
    from Suc.prems have "n div 10 < 10 ^ k" by (simp add: less_mult_imp_div_less mult.commute)
    with Suc.IH k have "length (decimal_of_nat (n div 10)) \<le> k" by blast
    with True show ?thesis by (subst decimal_of_nat.simps) simp
  next
    case False
    then show ?thesis by (subst decimal_of_nat.simps) simp
  qed
qed


lemma digits_value_zeros: "digits_value (replicate j (CHR ''0'')) 0 = Some 0"
  by (induction j) (simp_all add: digit_value_def)

lemma addLeadingZeros_parse:
  assumes "0 \<le> n" "n < 10 ^ k" "0 < k"
  shows "length (addLeadingZeros n k) = k" "digits_value (addLeadingZeros n k) 0 = Some n"
proof -
  have "nat n < 10 ^ k" using assms(1,2) by (simp add: nat_less_iff)
  then have "length (decimal_of_nat (nat n)) \<le> k" using assms(3) by (rule length_decimal)
  then show "length (addLeadingZeros n k) = k"
    using assms(1) by (simp add: addLeadingZeros_def padStart_def)
  show "digits_value (addLeadingZeros n k) 0 = Some n"
    using assms(1)
    by (simp add: addLeadingZeros_def padStart_def digits_value_append digits_value_zeros
        digits_value_decimal)
qed



lemma four_digit_year_days:
  assumes "four_digit_year t"
  shows "- 719162 \<le> t div MS_PER_DAY" "t div MS_PER_DAY \<le> 2932896"
proof -
  from assms have "- 62135596800000 \<le> t" "t \<le> 253402300799999"
    by (simp_all add: four_digit_year_def MIN_DATE_def MAX_DATE_def)
  then have "- 62135596800000 div 86400000 \<le> t div 86400000"
    "t div 86400000 \<le> 253402300799999 div 86400000"
    by (simp_all add: zdiv_mono1)
  then show "- 719162 \<le> t div MS_PER_DAY" "t div MS_PER_DAY \<le> 2932896"
    by (simp_all add: MS_PER_DAY_def)
qed

lemma parse_three_parts:
  assumes "length a = 4" "length b = 2" "length c = 2"
  shows "parseISO (a @ ''-'' @ b @ ''-'' @ c) =
    (case digits_value a 0 of
       None \<Rightarrow> None
     | Some y \<Rightarrow>
         (case digits_value b 0 of
            None \<Rightarrow> None
          | Some m \<Rightarrow>
              (case digits_value c 0 of
                 None \<Rightarrow> None
               | Some d \<Rightarrow>
                   if 1 \<le> m \<and> m \<le> 12 \<and> 1 \<le> d \<and> d \<le> days_in_month y m
                   then Some (days_from_civil y m d * MS_PER_DAY)
                   else None)))"
proof -
  let ?s = "a @ ''-'' @ b @ ''-'' @ c"
  have l: "length ?s = 10" "?s ! 4 = CHR ''-''" "?s ! 7 = CHR ''-''"
    using assms by (simp_all add: nth_append)
  have p: "take 4 ?s = a" "take 2 (drop 5 ?s) = b" "drop 8 ?s = c"
    using assms by simp_all
  show ?thesis
    unfolding parseISO_def p using l by simp
qed

text \<open>
  Within the years 0001 to 9999, reading a \<open>yyyy-MM-dd\<close> key back gives midnight of
  the day that was formatted.
\<close>

lemma parseISO_format:
  assumes "four_digit_year t"
  shows "parseISO (format_yyyy_MM_dd t) = Some (startOfDay t)"
proof -
  obtain y m d where c: "civil_from_days (t div MS_PER_DAY) = (y, m, d)"
    by (cases "civil_from_days (t div MS_PER_DAY)") auto
  note inv = civil_from_days_inverse [OF c]
  note yr = civil_year_range [OF c four_digit_year_days [OF assms]]
  have y: "getFullYear t = y" and m: "getMonth1 t = m" and d: "getDate t = d"
    by (simp_all add: getFullYear_def getMonth1_def getDate_def c)
  have dim: "days_in_month y m \<le> 31" by (simp add: days_in_month_def)
  have py: "length (format_yyyy t) = 4" "digits_value (format_yyyy t) 0 = Some y"
    using yr addLeadingZeros_parse [of y 4] by (simp_all add: format_yyyy_def y year_of_era_def)
  have pm: "length (format_MM t) = 2" "digits_value (format_MM t) 0 = Some m"
    using inv addLeadingZeros_parse [of m 2] by (simp_all add: format_MM_def m)
  have pd: "length (format_dd t) = 2" "digits_value (format_dd t) 0 = Some d"
    using inv dim addLeadingZeros_parse [of d 2] by (simp_all add: format_dd_def d)
  show ?thesis
    unfolding format_yyyy_MM_dd_def parse_three_parts [OF py(1) pm(1) pd(1)]
    using inv by (simp add: py pm pd startOfDay_def)
qed



section \<open>Properties of the grouping loop\<close>

lemma map_push_keys:
  "map fst (map_push m k v) = (if k \<in> fst ` set m then map fst m else map fst m @ [k])"
  by (induction m k v rule: map_push.induct) auto

lemma map_push_lookup:
  "map_of (map_push m k v) k' =
     (if k' = k then Some ((case map_of m k of None \<Rightarrow> [] | Some vs \<Rightarrow> vs) @ [v])
      else map_of m k')"
  by (induction m k v rule: map_push.induct) auto

lemma group_loop_keys:
  "fst ` set (group_loop key xs m) = fst ` set m \<union> key ` set xs"
proof (induction xs arbitrary: m)
  case Nil
  then show ?case by simp
next
  case (Cons x xs)
  have "fst ` set (map_push m (key x) x) = insert (key x) (fst ` set m)"
    using map_push_keys [of m "key x" x] by (metis (no_types, lifting) insert_absorb list.set_map
        set_append list.simps(15) Un_insert_right sup_bot.right_neutral empty_set)
  with Cons show ?case by auto
qed

lemma group_loop_distinct:
  "distinct (map fst m) \<Longrightarrow> distinct (map fst (group_loop key xs m))"
proof (induction xs arbitrary: m)
  case Nil
  then show ?case by simp
next
  case (Cons x xs)
  from Cons.prems have "distinct (map fst (map_push m (key x) x))"
    by (simp add: map_push_keys)
  with Cons.IH show ?case by simp
qed

lemma group_loop_lookup:
  "map_of (group_loop key xs m) k =
     (if k \<in> fst ` set m \<union> key ` set xs
      then Some ((case map_of m k of None \<Rightarrow> [] | Some vs \<Rightarrow> vs) @ filter (\<lambda>x. key x = k) xs)
      else None)"
proof (induction xs arbitrary: m)
  case Nil
  then show ?case by (auto simp: map_of_eq_None_iff split: option.splits)
next
  case (Cons x xs)
  have keys: "fst ` set (map_push m (key x) x) = insert (key x) (fst ` set m)"
    using map_push_keys [of m "key x" x] by (metis (no_types, lifting) insert_absorb list.set_map
        set_append list.simps(15) Un_insert_right sup_bot.right_neutral empty_set)
  show ?case
    by (simp add: Cons.IH keys map_push_lookup)
qed

lemma group_loop_empty:
  "map_of (group_loop key xs []) k =
     (if k \<in> key ` set xs then Some (filter (\<lambda>x. key x = k) xs) else None)"
  "fst ` set (group_loop key xs []) = key ` set xs"
  "distinct (map fst (group_loop key xs []))"
  by (simp_all add: group_loop_lookup group_loop_keys group_loop_distinct)

lemma those_map_Some:
  "(\<And>x. x \<in> set xs \<Longrightarrow> f x = Some (g x)) \<Longrightarrow> those (map f xs) = Some (map g xs)"
  by (induction xs) simp_all

lemma those_map_eq_Some:
  "those (map f xs) = Some ys \<Longrightarrow> map Some ys = map f xs"
proof (induction xs arbitrary: ys)
  case Nil
  then show ?case by simp
next
  case (Cons x xs)
  then show ?case by (auto split: option.splits)
qed

lemma foldl_hours: "foldl (\<lambda>sum e. sum + te_hours e) a es = a + sum_list (map te_hours es)"
  by (induction es arbitrary: a) simp_all

lemma sum_hours_sort_key: "sum_list (map te_hours (sort_key f es)) = sum_list (map te_hours es)"
proof -
  have "mset (map te_hours (sort_key f es)) = mset (map te_hours es)" by simp
  then show ?thesis by (metis sum_mset_sum_list)
qed

lemma partition_by_key:
  assumes "distinct ks" "key ` set xs \<subseteq> set ks"
  shows "(\<Sum>k\<leftarrow>ks. mset (filter (\<lambda>x. key x = k) xs)) = mset xs"
  using assms(2)
proof (induction xs)
  case Nil
  then show ?case by (induction ks) simp_all
next
  case (Cons x xs)
  have one: "(\<Sum>k\<leftarrow>ks. (if key x = k then {#x#} else {#})) = {#x#}" if "key x \<in> set ks"
    using that assms(1)
  proof (induction ks)
    case Nil
    then show ?case by simp
  next
    case (Cons k ks)
    show ?case
    proof (cases "key x = k")
      case True
      with Cons.prems have "key x \<notin> set ks" by simp
      then have "(\<Sum>k\<leftarrow>ks. (if key x = k then {#x#} else {#})) = {#}"
        by (induction ks) auto
      with True show ?thesis by simp
    next
      case False
      with Cons show ?thesis by simp
    qed
  qed
  have "(\<Sum>k\<leftarrow>ks. mset (filter (\<lambda>y. key y = k) (x # xs))) =
      (\<Sum>k\<leftarrow>ks. (if key x = k then {#x#} else {#}) + mset (filter (\<lambda>y. key y = k) xs))"
    by (rule arg_cong [where f = sum_list]) (rule map_cong, simp_all)
  also have "\<dots> = (\<Sum>k\<leftarrow>ks. (if key x = k then {#x#} else {#})) +
      (\<Sum>k\<leftarrow>ks. mset (filter (\<lambda>y. key y = k) xs))"
    by (simp add: sum_list_addf)
  also have "\<dots> = {#x#} + mset xs"
    using Cons one by simp
  finally show ?case by simp
qed

section \<open>Properties of the days of a list of entries\<close>

lemma day_of_key_eq:
  assumes "k \<in> entry_dayKey ` set es"
  shows "day_of_key (group_loop entry_dayKey es []) k =
    map_option (\<lambda>date. day_sheet date (filter (\<lambda>e. entry_dayKey e = k) es)) (parseISO k)"
  using assms
  by (simp add: day_of_key_def group_loop_empty day_sheet_def foldl_hours sum_hours_sort_key
      split: option.splits)


lemma groupByDay_those:
  "groupByDay es =
     those (map (\<lambda>k. map_option (\<lambda>date. day_sheet date (filter (\<lambda>e. entry_dayKey e = k) es))
                          (parseISO k))
                (sort (map fst (group_loop entry_dayKey es []))))"
proof -
  have "map (day_of_key (group_loop entry_dayKey es []))
          (sort (map fst (group_loop entry_dayKey es []))) =
        map (\<lambda>k. map_option (\<lambda>date. day_sheet date (filter (\<lambda>e. entry_dayKey e = k) es))
                          (parseISO k))
          (sort (map fst (group_loop entry_dayKey es [])))"
    by (rule map_cong [OF refl]) (simp add: day_of_key_eq group_loop_empty)
  then show ?thesis unfolding groupByDay_def Let_def by (rule arg_cong)
qed

lemma map_Some_eq_map:
  assumes "map Some ds = map f ks" "\<And>k d. k \<in> set ks \<Longrightarrow> f k = Some d \<Longrightarrow> g d = h k"
  shows "map g ds = map h ks"
  using assms
proof (induction ds arbitrary: ks)
  case Nil
  then show ?case by simp
next
  case (Cons d ds)
  then obtain k ks' where ks: "ks = k # ks'" by (cases ks) auto
  with Cons.prems(1) have "f k = Some d" "map Some ds = map f ks'" by simp_all
  with Cons.IH [of ks'] Cons.prems(2) ks show ?case by simp
qed

lemma groupByDay_entries:
  assumes "groupByDay es = Some days"
  shows "map dt_entries days =
    map (\<lambda>k. sort_key te_date (filter (\<lambda>e. entry_dayKey e = k) es))
      (sort (map fst (group_loop entry_dayKey es [])))"
proof (rule map_Some_eq_map)
  show "map Some days =
    map (\<lambda>k. map_option (\<lambda>date. day_sheet date (filter (\<lambda>e. entry_dayKey e = k) es))
                          (parseISO k))
      (sort (map fst (group_loop entry_dayKey es [])))"
    using assms unfolding groupByDay_those by (rule those_map_eq_Some)
next
  fix k d
  assume "map_option (\<lambda>date. day_sheet date (filter (\<lambda>e. entry_dayKey e = k) es)) (parseISO k) = Some d"
  then show "dt_entries d = sort_key te_date (filter (\<lambda>e. entry_dayKey e = k) es)"
    by (auto simp: day_sheet_def)
qed

lemma groupByDay_total:
  assumes "\<forall>e \<in> set es. four_digit_year (te_date e)"
  shows "groupByDay es =
    Some (map (\<lambda>k. day_sheet (the (parseISO k)) (filter (\<lambda>e. entry_dayKey e = k) es))
            (sort (map fst (group_loop entry_dayKey es []))))"
  unfolding groupByDay_those
proof (rule those_map_Some)
  fix k
  assume "k \<in> set (sort (map fst (group_loop entry_dayKey es [])))"
  then obtain e where "e \<in> set es" "k = format_yyyy_MM_dd (te_date e)"
    by (auto simp: group_loop_empty entry_dayKey_def)
  with assms have "parseISO k = Some (startOfDay (te_date e))"
    by (simp add: parseISO_format)
  then show "map_option (\<lambda>date. day_sheet date (filter (\<lambda>e. entry_dayKey e = k) es)) (parseISO k) =
      Some (day_sheet (the (parseISO k)) (filter (\<lambda>e. entry_dayKey e = k) es))"
    by simp
qed

text \<open>
  Claim C7. For every entry list, concatenating the entry sequences of the days that
  \<open>groupByDay\<close> returns gives the input entries as a multiset: none is dropped and none
  is duplicated. The function does return for entries dated in the years 0001 to 9999
  (beyond them a day key does not read back as a date and formatting it throws).
\<close>

theorem groupByDay_preserves_entries:
  "(groupByDay es = Some days \<longrightarrow> mset (concat (map dt_entries days)) = mset es)
   \<and> ((\<forall>e \<in> set es. four_digit_year (te_date e)) \<longrightarrow> groupByDay es \<noteq> None)"
proof
  show "groupByDay es = Some days \<longrightarrow> mset (concat (map dt_entries days)) = mset es"
  proof
    assume "groupByDay es = Some days"
    then have "mset (concat (map dt_entries days)) =
        (\<Sum>k\<leftarrow>sort (map fst (group_loop entry_dayKey es [])).
            mset (filter (\<lambda>e. entry_dayKey e = k) es))"
      by (simp add: groupByDay_entries mset_concat comp_def)
    also have "\<dots> = mset es"
      by (rule partition_by_key) (simp_all add: group_loop_empty)
    finally show "mset (concat (map dt_entries days)) = mset es" .
  qed
  show "(\<forall>e \<in> set es. four_digit_year (te_date e)) \<longrightarrow> groupByDay es \<noteq> None"
    by (simp add: groupByDay_total)
qed



section \<open>Evaluation on the example data\<close>

lemmas civil_defs = civil_from_days_def civil_of_shifted_def civil_of_era_def
  civil_of_century_def civil_of_quad_def civil_of_year_def civil_of_month_def
  days_from_civil_def days_of_civil_def days_in_month_def is_leap_def

lemmas date_defs = civil_defs MS_PER_DAY_def getFullYear_def getMonth1_def getDate_def
  getDay_def startOfDay_def startOfWeek_def endOfWeek_def eachDayOfInterval_def
  eachDay_loop.simps padStart_def addLeadingZeros_def year_of_era_def format_yyyy_def
  format_MM_def format_dd_def format_yyyy_MM_dd_def format_MMM_def format_EEEE_def
  format_MMM_dd_def format_MMM_dd_yyyy_def digit_value_def parseISO_def digit_char_def
  decimal_of_nat.simps

lemmas entry_defs = entry_at_def task_at_def taskToTimeEntry_def parseHoursFromCategories_def
  CATEGORY_HOURS_MAP_def DIRECT_HOURS_MAP_def getCategoryDisplayLabel_def decimal_of_int_def
  string_of_number_def Math_round_def

lemma march_entries_in_range: "\<forall>e \<in> set march_entries. four_digit_year (te_date e)"
  by (simp add: march_entries_def entry_defs four_digit_year_def MIN_DATE_def MAX_DATE_def
      Let_def)

lemma groupByDay_march:
  "map_option (map dt_date) (groupByDay march_entries) = Some [1709942400000, 1710028800000]"
  "map_option (map (\<lambda>d. map te_id (dt_entries d))) (groupByDay march_entries) =
     Some [[''b''], [''c'', ''a'']]"
  "map_option (map dt_totalHours) (groupByDay march_entries) = Some [2, 7 / 2]"
  "map_option (map dt_dateStr) (groupByDay march_entries) =
     Some [''Mar 09, 2024'', ''Mar 10, 2024'']"
  "map_option (map dt_dayName) (groupByDay march_entries) = Some [''Saturday'', ''Sunday'']"
  by (simp_all add: march_entries_def groupByDay_def day_of_key_def entry_dayKey_def date_defs
      entry_defs Let_def)

theorem groupByDay_preserves_entries_witness:
  "\<exists>days. groupByDay march_entries = Some days
     \<and> mset (concat (map dt_entries days)) = mset march_entries
     \<and> map (\<lambda>d. map te_id (dt_entries d)) days = [[''b''], [''c'', ''a'']]"
proof -
  have "groupByDay march_entries \<noteq> None"
    using groupByDay_preserves_entries [of march_entries "[]", THEN conjunct2]
      march_entries_in_range
    by (rule mp)
  then obtain days where d: "groupByDay march_entries = Some days"
    by (cases "groupByDay march_entries") simp_all
  have m: "mset (concat (map dt_entries days)) = mset march_entries"
    using groupByDay_preserves_entries [of march_entries days, THEN conjunct1] d
    by (rule mp)
  have i: "map (\<lambda>d. map te_id (dt_entries d)) days = [[''b''], [''c'', ''a'']]"
    using groupByDay_march(2) unfolding d by simp
  from d m i show ?thesis by (intro exI [of _ days] conjI)
qed


section \<open>Properties of weeks\<close>

lemma startOfDay_idem [simp]: "startOfDay (startOfDay t) = startOfDay t"
  by (simp add: startOfDay_def MS_PER_DAY_def)



lemma startOfWeek_eq:
  "startOfWeek t = (t div MS_PER_DAY - (t div MS_PER_DAY + 3) mod 7) * MS_PER_DAY"
proof -
  define z where "z = t div MS_PER_DAY"
  have "(if (z + 4) mod 7 < 1 then 7 else 0) + (z + 4) mod 7 - 1 = (z + 3) mod 7"
    by presburger
  then show ?thesis
    unfolding startOfWeek_def getDay_def startOfDay_def Let_def z_def [symmetric]
    by (simp add: algebra_simps)
qed


lemma startOfWeek_day: "startOfWeek t div MS_PER_DAY = t div MS_PER_DAY - (t div MS_PER_DAY + 3) mod 7"
  by (simp add: startOfWeek_eq MS_PER_DAY_def)

lemma startOfWeek_midnight [simp]: "startOfDay (startOfWeek t) = startOfWeek t"
  by (simp add: startOfDay_def startOfWeek_day) (simp add: startOfWeek_eq)




























section \<open>Properties of the draft entries\<close>















text \<open>
  C9. The commits of a repo named \<open>my_repo\<close> are grouped under the key
  \<open>2024-03-10_my_repo\<close>, but the repo of the draft entry is read back from the key as
  the text between its first two underscores: it is \<open>my\<close>, not the repo name of the
  member commits, and the configuration of \<open>my_repo\<close> is not found, so that the hours
  are the fallback 2 and not the configured 3.
\<close>

theorem processCommits_underscore_repo:
  "map_option (map (\<lambda>d. (de_id d, de_repo d, map gc_repo (de_commits d), de_hours d)))
     (processCommits [underscore_repo] [(commit_at 1710061200000)\<lparr>gc_repo := ''my_repo''\<rparr>]) =
   Some [(''2024-03-10_my_repo'', ''my'', [''my_repo''], 2)]"
  by (simp add: processCommits_def draft_of_group_def commit_key_def commit_at_def
      underscore_repo_def first_line_def date_defs Let_def)

end
